theory Spec2Isabelle
  imports Complex_Main "HOL-Library.Product_Lexorder"
begin

section \<open>Python strings (ASCII)\<close>

text \<open>
  A Python \<open>str\<close> is modelled as a \<open>string\<close>. Case mapping and the whitespace class
  follow Python on ASCII; a character above 127 is uncased and is not whitespace here, so
  the development speaks about ASCII text.
\<close>

definition is_upper_c :: "char \<Rightarrow> bool" where
  "is_upper_c c = (65 \<le> (of_char c :: nat) \<and> (of_char c :: nat) \<le> 90)"

definition is_lower_c :: "char \<Rightarrow> bool" where
  "is_lower_c c = (97 \<le> (of_char c :: nat) \<and> (of_char c :: nat) \<le> 122)"

definition lower_c :: "char \<Rightarrow> char" where
  "lower_c c = (if is_upper_c c then char_of ((of_char c :: nat) + 32) else c)"

definition upper_c :: "char \<Rightarrow> char" where
  "upper_c c = (if is_lower_c c then char_of ((of_char c :: nat) - 32) else c)"

definition is_space_c :: "char \<Rightarrow> bool" where
  "is_space_c c =
     ((of_char c :: nat) = 32 \<or> (9 \<le> (of_char c :: nat) \<and> (of_char c :: nat) \<le> 13)
      \<or> (28 \<le> (of_char c :: nat) \<and> (of_char c :: nat) \<le> 31))"

definition py_lower :: "string \<Rightarrow> string" where
  "py_lower s = map lower_c s"

definition py_upper :: "string \<Rightarrow> string" where
  "py_upper s = map upper_c s"

text \<open>\<open>str.capitalize\<close>: the first character upper-cased, the rest lower-cased.\<close>

definition py_capitalize :: "string \<Rightarrow> string" where
  "py_capitalize s = (case s of [] \<Rightarrow> [] | c # cs \<Rightarrow> upper_c c # map lower_c cs)"

text \<open>
  \<open>str.isupper\<close> and \<open>str.islower\<close>: at least one cased character, and no cased
  character of the other case.
\<close>

definition py_isupper :: "string \<Rightarrow> bool" where
  "py_isupper s = (list_ex is_upper_c s \<and> \<not> list_ex is_lower_c s)"

definition py_islower :: "string \<Rightarrow> bool" where
  "py_islower s = (list_ex is_lower_c s \<and> \<not> list_ex is_upper_c s)"

text \<open>
  \<open>str.istitle\<close> is CPython's loop: an upper-case character may only follow an uncased
  one, a lower-case character only a cased one, and there is at least one cased character.
  The two flags are \<open>previous_is_cased\<close> and \<open>cased\<close>.
\<close>

fun istitle_loop :: "bool \<Rightarrow> bool \<Rightarrow> string \<Rightarrow> bool" where
  "istitle_loop prev cased [] = cased"
| "istitle_loop prev cased (c # cs) =
     (if is_upper_c c then (if prev then False else istitle_loop True True cs)
      else if is_lower_c c then (if \<not> prev then False else istitle_loop True True cs)
      else istitle_loop False cased cs)"

definition py_istitle :: "string \<Rightarrow> bool" where
  "py_istitle s = istitle_loop False False s"

definition py_strip :: "string \<Rightarrow> string" where
  "py_strip s = rev (dropWhile is_space_c (rev (dropWhile is_space_c s)))"

text \<open>\<open>str.split()\<close> with no argument: the maximal runs of non-whitespace characters.\<close>

fun split_loop :: "string \<Rightarrow> string \<Rightarrow> string list" where
  "split_loop cur [] = (if cur = [] then [] else [cur])"
| "split_loop cur (c # cs) =
     (if is_space_c c then (if cur = [] then split_loop [] cs else cur # split_loop [] cs)
      else split_loop (cur @ [c]) cs)"

definition py_split :: "string \<Rightarrow> string list" where
  "py_split s = split_loop [] s"

section \<open>models.py: UserData\<close>

text \<open>
  The seven attributes of \<open>UserData\<close>. The same seven values are the parameters bound by
  every INSERT and UPDATE statement of logic.py. A float is modelled by the real number it
  denotes.
\<close>

record user_data =
  u_name :: string
  u_surname :: string
  u_email :: string
  u_number :: string
  u_note :: string
  u_rating :: real
  u_status :: string

definition VALID_PHONE_CHARS :: "char list" where
  "VALID_PHONE_CHARS = ''0123456789-+ ()''"

text \<open>\<open>UserData.__init__\<close>: every text attribute but the number is stripped.\<close>

definition UserData ::
  "string \<Rightarrow> string \<Rightarrow> string \<Rightarrow> string \<Rightarrow> real \<Rightarrow> string \<Rightarrow> string \<Rightarrow> user_data" where
  "UserData name number surname note rating email status =
     \<lparr>u_name = py_strip name, u_surname = py_strip surname, u_email = py_strip email,
      u_number = number, u_note = py_strip note, u_rating = rating,
      u_status = py_strip status\<rparr>"

definition is_valid_phone_input :: "string \<Rightarrow> bool" where
  "is_valid_phone_input number = list_all (\<lambda>c. c \<in> set VALID_PHONE_CHARS) number"

text \<open>
  \<open>UserData.is_valid\<close>, with the title of the error dialog it shows; \<open>None\<close> is the
  valid record.
\<close>

definition validation_error :: "user_data \<Rightarrow> string option" where
  "validation_error u =
     (if u_name u = [] then Some ''Missing Name''
      else if u_surname u = [] then Some ''Missing Surname''
      else if \<not> is_valid_phone_input (u_number u) then Some ''Invalid Input''
      else if length (u_number u) > 21 then Some ''Too Long''
      else if u_rating u < 0 \<or> u_rating u > 5 then Some ''Invalid Rating''
      else None)"

definition is_valid :: "user_data \<Rightarrow> bool" where
  "is_valid u = (validation_error u = None)"

section \<open>logic.py: the campers table\<close>

text \<open>
  A row of the table \<open>campers\<close> is its integer key and the seven data columns. The
  database is the list of rows in key order together with the AUTOINCREMENT counter
  (the largest key ever drawn). Text columns always hold strings here, since every caller
  binds Python strings; \<open>number\<close> is UNIQUE under exact (binary) comparison.
\<close>

record camper =
  row_id :: int
  row_data :: user_data

record db =
  rows :: "camper list"
  seq :: int

datatype error = IntegrityError | ValueError | FileNotFoundError | IsADirectoryError

definition numbers :: "db \<Rightarrow> string list" where
  "numbers d = map (\<lambda>r. u_number (row_data r)) (rows d)"

text \<open>The key drawn for a new row: one more than the largest key that ever existed.\<close>

definition new_rowid :: "db \<Rightarrow> int" where
  "new_rowid d = max (seq d) (fold max (map row_id (rows d)) 0) + 1"

text \<open>
  \<open>INSERT INTO campers (...) VALUES (?, ?, ?, ?, ?, ?, ?)\<close>: a number already in the
  table violates the UNIQUE constraint, the statement raises and changes nothing.
\<close>

definition sql_insert :: "user_data \<Rightarrow> db \<Rightarrow> error + db" where
  "sql_insert v d =
     (if u_number v \<in> set (numbers d) then Inl IntegrityError
      else Inr \<lparr>rows = rows d @ [\<lparr>row_id = new_rowid d, row_data = v\<rparr>], seq = new_rowid d\<rparr>)"

text \<open>
  \<open>INSERT OR IGNORE\<close>: the conflicting row is skipped and nothing is raised. SQLite draws
  the key before it checks the constraint, so a skipped insert may leave a gap in the keys;
  its documentation promises increasing keys only.
\<close>

definition sql_insert_or_ignore :: "user_data \<Rightarrow> db \<Rightarrow> db" where
  "sql_insert_or_ignore v d =
     (if u_number v \<in> set (numbers d) then \<lparr>rows = rows d, seq = new_rowid d\<rparr>
      else \<lparr>rows = rows d @ [\<lparr>row_id = new_rowid d, row_data = v\<rparr>], seq = new_rowid d\<rparr>)"

text \<open>
  \<open>UPDATE campers SET ... WHERE id=?\<close>: the row with that key gets the seven values; no
  such row, no change. When another row already holds the new number the statement raises.
\<close>

definition sql_update :: "int \<Rightarrow> user_data \<Rightarrow> db \<Rightarrow> error + db" where
  "sql_update i v d =
     (if list_ex (\<lambda>r. row_id r = i) (rows d)
         \<and> list_ex (\<lambda>r. row_id r \<noteq> i \<and> u_number (row_data r) = u_number v) (rows d)
      then Inl IntegrityError
      else Inr \<lparr>rows = map (\<lambda>r. if row_id r = i then \<lparr>row_id = i, row_data = v\<rparr> else r) (rows d),
                seq = seq d\<rparr>)"

text \<open>
  The LIKE operator of SQLite: \<open>%\<close> matches any run of characters, \<open>_\<close> any one
  character, every other character itself up to ASCII case.
\<close>

fun like :: "string \<Rightarrow> string \<Rightarrow> bool" where
  "like [] s = (s = [])"
| "like (p # ps) [] = (p = CHR ''%'' \<and> like ps [])"
| "like (p # ps) (c # cs) =
     (if p = CHR ''%'' then like ps (c # cs) \<or> like (p # ps) cs
      else if p = CHR ''_'' then like ps cs
      else lower_c p = lower_c c \<and> like ps cs)"

text \<open>
  Every function of logic.py opens a connection, runs its statements in one implicit
  transaction and commits at the end. A call returns the exception it raised, if any, and
  the database as the next connection sees it: a call that raised never reached
  \<open>conn.commit()\<close>, and its statements are rolled back.
\<close>

definition commit :: "db \<Rightarrow> error + db \<Rightarrow> error option \<times> db" where
  "commit d r = (case r of Inl e \<Rightarrow> (Some e, d) | Inr d' \<Rightarrow> (None, d'))"

definition add_camper :: "user_data \<Rightarrow> db \<Rightarrow> error option \<times> db" where
  "add_camper user d = commit d (sql_insert user d)"

definition update_camper :: "int \<Rightarrow> user_data \<Rightarrow> db \<Rightarrow> error option \<times> db" where
  "update_camper camper_id user d = commit d (sql_update camper_id user d)"

definition delete_camper :: "int \<Rightarrow> db \<Rightarrow> db" where
  "delete_camper camper_id d = \<lparr>rows = filter (\<lambda>r. row_id r \<noteq> camper_id) (rows d), seq = seq d\<rparr>"

definition delete_camper_by_number :: "string \<Rightarrow> db \<Rightarrow> db" where
  "delete_camper_by_number number d =
     \<lparr>rows = filter (\<lambda>r. u_number (row_data r) \<noteq> number) (rows d), seq = seq d\<rparr>"

text \<open>
  \<open>fetch_campers(search_term, column)\<close>. The column is one of the four the search form
  passes. The filter applies only when both arguments are truthy: a missing or empty term
  selects every row. A result is the dictionary of the eight columns of a row, which is
  the row itself here.
\<close>

datatype column = ColName | ColSurname | ColEmail | ColNumber

fun column_value :: "column \<Rightarrow> user_data \<Rightarrow> string" where
  "column_value ColName v = u_name v"
| "column_value ColSurname v = u_surname v"
| "column_value ColEmail v = u_email v"
| "column_value ColNumber v = u_number v"

definition fetch_campers :: "string option \<Rightarrow> column option \<Rightarrow> db \<Rightarrow> camper list" where
  "fetch_campers search_term col d =
     (case (search_term, col) of
        (Some t, Some c) \<Rightarrow>
          (if t \<noteq> [] then
             filter (\<lambda>r. like (CHR ''%'' # t @ ''%'') (column_value c (row_data r))) (rows d)
           else rows d)
      | _ \<Rightarrow> rows d)"

subsection \<open>handle_submit\<close>

text \<open>The entry widgets of the input form, as \<open>handle_submit\<close> reads them.\<close>

record form =
  name_entry :: string
  surname_entry :: string
  email_entry :: string
  number_entry :: string
  note_entry :: string
  rating_var :: real
  status_var :: string

definition clear_entries :: form where
  "clear_entries = \<lparr>name_entry = [], surname_entry = [], email_entry = [], number_entry = [],
     note_entry = [], rating_var = 0, status_var = []\<rparr>"

text \<open>
  The record is validated, inserted and the form cleared. An exception of the insert
  leaves \<open>handle_submit\<close> before the form is cleared.
\<close>

definition handle_submit :: "form \<Rightarrow> db \<Rightarrow> error option \<times> db \<times> form" where
  "handle_submit f d =
     (let user = UserData (name_entry f) (number_entry f) (surname_entry f) (note_entry f)
                   (rating_var f) (email_entry f) (status_var f)
      in if is_valid user then
           (case add_camper user d of
              (Some e, d') \<Rightarrow> (Some e, d', f)
            | (None, d') \<Rightarrow> (None, d', clear_entries))
         else (None, d, f))"

subsection \<open>save_all_campers\<close>

text \<open>
  An item of the batch is a dictionary: a field is \<open>None\<close> when its key is absent, and
  \<open>item.get\<close> then yields the default. The rating is any Python value \<open>'v\<close>; the builtin
  \<open>float\<close> is the parameter \<open>pyfloat\<close>, \<open>None\<close> where it raises. The default rating is
  \<open>float(0)\<close>.
\<close>

record 'v item =
  item_id :: "int option"
  item_name :: "string option"
  item_surname :: "string option"
  item_email :: "string option"
  item_number :: "string option"
  item_note :: "string option"
  item_rating :: "'v option"
  item_status :: "string option"

definition get_str :: "string option \<Rightarrow> string" where
  "get_str x = (case x of None \<Rightarrow> [] | Some s \<Rightarrow> s)"

definition get_rating :: "('v \<Rightarrow> real option) \<Rightarrow> 'v option \<Rightarrow> real option" where
  "get_rating pyfloat x = (case x of None \<Rightarrow> Some 0 | Some v \<Rightarrow> pyfloat v)"

text \<open>The parameter tuple of both statements; building it raises when \<open>float\<close> does.\<close>

definition item_values :: "('v \<Rightarrow> real option) \<Rightarrow> 'v item \<Rightarrow> error + user_data" where
  "item_values pyfloat it =
     (case get_rating pyfloat (item_rating it) of
        None \<Rightarrow> Inl ValueError
      | Some r \<Rightarrow>
          Inr \<lparr>u_name = get_str (item_name it), u_surname = get_str (item_surname it),
               u_email = get_str (item_email it), u_number = get_str (item_number it),
               u_note = get_str (item_note it), u_rating = r,
               u_status = get_str (item_status it)\<rparr>)"

text \<open>\<open>if camper_id:\<close> holds for an id that is present and not zero.\<close>

definition truthy_id :: "int option \<Rightarrow> bool" where
  "truthy_id x = (case x of None \<Rightarrow> False | Some i \<Rightarrow> i \<noteq> 0)"

text \<open>
  The body of the loop, for one item. The parameter tuple is built before the statement
  runs, so a rating that \<open>float\<close> rejects raises on both paths; on the insert path the
  handler for \<open>sqlite3.IntegrityError\<close> does not catch it. A number that is already stored
  never reaches that handler either: \<open>OR IGNORE\<close> has skipped the row.
\<close>

definition save_item :: "('v \<Rightarrow> real option) \<Rightarrow> 'v item \<Rightarrow> db \<Rightarrow> error + db" where
  "save_item pyfloat it d =
     (if truthy_id (item_id it) then
        (case item_values pyfloat it of
           Inl e \<Rightarrow> Inl e
         | Inr v \<Rightarrow> sql_update (the (item_id it)) v d)
      else
        (case item_values pyfloat it of
           Inl e \<Rightarrow> Inl e
         | Inr v \<Rightarrow> Inr (sql_insert_or_ignore v d)))"

fun save_loop :: "('v \<Rightarrow> real option) \<Rightarrow> 'v item list \<Rightarrow> db \<Rightarrow> error + db" where
  "save_loop pyfloat [] d = Inr d"
| "save_loop pyfloat (it # items) d =
     (case save_item pyfloat it d of
        Inl e \<Rightarrow> Inl e
      | Inr d' \<Rightarrow> save_loop pyfloat items d')"

definition save_all_campers ::
  "('v \<Rightarrow> real option) \<Rightarrow> 'v item list \<Rightarrow> db \<Rightarrow> error option \<times> db" where
  "save_all_campers pyfloat items d = commit d (save_loop pyfloat items d)"

subsection \<open>create_db_backup\<close>













section \<open>gui.py: the spell check of the note field\<close>

text \<open>
  A suggestion of the spelling library, and the library's
  \<open>lookup(word, Verbosity.CLOSEST, max_edit_distance=2)\<close> as a parameter \<open>lookup\<close> of the
  functions that call it.
\<close>

record suggest_item =
  s_term :: string
  s_distance :: nat
  s_count :: nat

text \<open>
  The text widget: its content, and the character ranges that carry the tag
  \<open>misspelled\<close>. An index is the offset of a character from the start of the text.
\<close>

record text_widget =
  w_text :: string
  w_tags :: "(nat \<times> nat) list"

text \<open>
  \<open>widget.search(word, start, stopindex="end")\<close>: the first occurrence of the word that
  starts at or after \<open>start\<close>, if there is one.
\<close>

fun search_from :: "string \<Rightarrow> string \<Rightarrow> nat \<Rightarrow> nat option" where
  "search_from word [] i = None"
| "search_from word (c # cs) i =
     (if take (length word) (c # cs) = word then Some i else search_from word cs (Suc i))"

definition search :: "string \<Rightarrow> nat \<Rightarrow> string \<Rightarrow> nat option" where
  "search word start txt = search_from word (drop start txt) start"

text \<open>The test of \<open>check_spelling\<close> on the suggestions for one word.\<close>

definition is_misspelled :: "(string \<Rightarrow> suggest_item list) \<Rightarrow> string \<Rightarrow> bool" where
  "is_misspelled lookup word =
     (case lookup (py_lower word) of
        [] \<Rightarrow> True
      | s # _ \<Rightarrow> s_term s \<noteq> py_lower word)"

text \<open>The loop over the words, with the index \<open>start\<close>; it yields the ranges it tags.\<close>

fun spelling_loop ::
  "(string \<Rightarrow> suggest_item list) \<Rightarrow> string \<Rightarrow> string list \<Rightarrow> nat \<Rightarrow> (nat \<times> nat) list" where
  "spelling_loop lookup txt [] start = []"
| "spelling_loop lookup txt (word # words) start =
     (if is_misspelled lookup word then
        (case search word start txt of
           Some pos \<Rightarrow>
             (pos, pos + length word) # spelling_loop lookup txt words (pos + length word)
         | None \<Rightarrow> spelling_loop lookup txt words start)
      else spelling_loop lookup txt words start)"

text \<open>
  \<open>check_spelling(event)\<close>: without an event nothing happens; otherwise the old tags are
  removed and the widget of the event is tagged afresh.
\<close>

definition check_spelling ::
  "(string \<Rightarrow> suggest_item list) \<Rightarrow> text_widget option \<Rightarrow> text_widget option" where
  "check_spelling lookup event =
     (case event of
        None \<Rightarrow> None
      | Some widget \<Rightarrow>
          Some \<lparr>w_text = w_text widget,
                w_tags = spelling_loop lookup (w_text widget) (py_split (w_text widget)) 0\<rparr>)"

text \<open>The text of the tooltip that \<open>display_word_suggestion\<close> shows for a word.\<close>

definition display_word_suggestion :: "(string \<Rightarrow> suggest_item list) \<Rightarrow> string \<Rightarrow> string" where
  "display_word_suggestion lookup word =
     (case lookup word of [] \<Rightarrow> ''No suggestion'' | s # _ \<Rightarrow> s_term s)"

definition match_capitalization :: "string \<Rightarrow> string \<Rightarrow> string" where
  "match_capitalization original suggestion =
     (if py_isupper original then py_upper suggestion
      else if py_istitle original then py_capitalize suggestion
      else if py_islower original then py_lower suggestion
      else suggestion)"

subsection \<open>The lookup of the spelling engine\<close>

text \<open>
  Modelled from the spec: the edit distance of the glossary (the minimum number of
  single-character insertions, deletions or substitutions). The source delegates the
  lookup to the third-party class \<open>SymSpell\<close>, whose code is not in the repository.
\<close>

fun edit_distance :: "string \<Rightarrow> string \<Rightarrow> nat" where
  "edit_distance [] ys = length ys"
| "edit_distance (x # xs) [] = Suc (length xs)"
| "edit_distance (x # xs) (y # ys) =
     min (Suc (edit_distance xs (y # ys)))
       (min (Suc (edit_distance (x # xs) ys))
            (edit_distance xs ys + (if x = y then 0 else 1)))"

text \<open>
  Modelled from the spec: a dictionary entry maps a word to its frequency count, and every
  entry is a candidate with its edit distance from the word that is looked up. The
  dictionary and its index are built by \<open>SymSpell\<close>, not by the sources.
\<close>

definition candidates :: "(string \<times> nat) list \<Rightarrow> string \<Rightarrow> suggest_item list" where
  "candidates dict word =
     map (\<lambda>(w, c). \<lparr>s_term = w, s_distance = edit_distance word w, s_count = c\<rparr>) dict"

text \<open>
  Modelled from the spec: \<open>Lookup(word, max_distance)\<close> of section 4.1, which the sources
  leave to \<open>SymSpell.lookup\<close>. The lookup works on the lower-cased word and returns the
  candidates within the distance, by ascending edit distance and then descending
  frequency; nothing within the distance gives the empty list.
\<close>

definition Lookup :: "(string \<times> nat) list \<Rightarrow> string \<Rightarrow> nat \<Rightarrow> suggest_item list" where
  "Lookup dict word max_distance =
     sort_key (\<lambda>s. (s_distance s, - int (s_count s)))
       (filter (\<lambda>s. s_distance s \<le> max_distance) (candidates dict (py_lower word)))"

section \<open>Vocabulary of the properties\<close>

text \<open>
  \<open>ci_contains t v\<close>: the term \<open>t\<close> occurs in \<open>v\<close> as a substring, up to ASCII case.
\<close>

fun ci_prefix :: "string \<Rightarrow> string \<Rightarrow> bool" where
  "ci_prefix [] s = True"
| "ci_prefix (p # ps) [] = False"
| "ci_prefix (p # ps) (c # cs) = (lower_c p = lower_c c \<and> ci_prefix ps cs)"

fun ci_contains :: "string \<Rightarrow> string \<Rightarrow> bool" where
  "ci_contains t [] = (t = [])"
| "ci_contains t (c # cs) = (ci_prefix t (c # cs) \<or> ci_contains t cs)"

definition no_wildcard :: "string \<Rightarrow> bool" where
  "no_wildcard t = list_all (\<lambda>x. x \<noteq> CHR ''%'' \<and> x \<noteq> CHR ''_'') t"

text \<open>A filter of \<open>fetch_campers\<close> matches a record when its term occurs in the column.\<close>

definition filter_matches :: "string option \<Rightarrow> column option \<Rightarrow> user_data \<Rightarrow> bool" where
  "filter_matches search_term col u =
     (case (search_term, col) of
        (Some t, Some c) \<Rightarrow> ci_contains t (column_value c u)
      | _ \<Rightarrow> True)"

text \<open>
  The records of an insert-only batch that reach the table: a record is dropped when its
  number is already stored or was inserted earlier in the batch.
\<close>

fun fresh_inserts :: "string list \<Rightarrow> user_data list \<Rightarrow> user_data list" where
  "fresh_inserts seen [] = []"
| "fresh_inserts seen (v # vs) =
     (if u_number v \<in> set seen then fresh_inserts seen vs
      else v # fresh_inserts (u_number v # seen) vs)"

text \<open>
  What an update-only batch leaves in a row: the values of the last item that carries the
  key of the row.
\<close>

fun last_write :: "('v \<Rightarrow> real option) \<Rightarrow> 'v item list \<Rightarrow> int \<Rightarrow> user_data option" where
  "last_write pyfloat [] i = None"
| "last_write pyfloat (it # items) i =
     (case last_write pyfloat items i of
        Some v \<Rightarrow> Some v
      | None \<Rightarrow>
          (case item_values pyfloat it of
             Inr v \<Rightarrow> (if item_id it = Some i then Some v else None)
           | Inl e \<Rightarrow> None))"

definition row_after :: "('v \<Rightarrow> real option) \<Rightarrow> 'v item list \<Rightarrow> camper \<Rightarrow> camper" where
  "row_after pyfloat items r =
     (case last_write pyfloat items (row_id r) of
        None \<Rightarrow> r
      | Some v \<Rightarrow> \<lparr>row_id = row_id r, row_data = v\<rparr>)"

text \<open>
  The tokens of a text with the offsets where each starts and ends: the spans that a
  spell check is expected to tag.
\<close>

fun spans_loop :: "nat \<Rightarrow> string \<Rightarrow> string \<Rightarrow> (string \<times> nat \<times> nat) list" where
  "spans_loop i cur [] = (if cur = [] then [] else [(cur, i - length cur, i)])"
| "spans_loop i cur (c # cs) =
     (if is_space_c c then
        (if cur = [] then spans_loop (Suc i) [] cs
         else (cur, i - length cur, i) # spans_loop (Suc i) [] cs)
      else spans_loop (Suc i) (cur @ [c]) cs)"

definition token_spans :: "string \<Rightarrow> (string \<times> nat \<times> nat) list" where
  "token_spans txt = spans_loop 0 [] txt"

section \<open>Sample data\<close>

definition ann :: user_data where
  "ann = \<lparr>u_name = ''Ann'', u_surname = ''Lee'', u_email = '''', u_number = ''555-1234'',
     u_note = '''', u_rating = 3.5, u_status = ''yellow''\<rparr>"

definition bob :: user_data where
  "bob = \<lparr>u_name = ''Bob'', u_surname = ''Ray'', u_email = ''bob@camp.org'',
     u_number = ''555-9999'', u_note = ''late arrival'', u_rating = 4, u_status = ''green''\<rparr>"

definition db1 :: db where
  "db1 = \<lparr>rows = [\<lparr>row_id = 1, row_data = ann\<rparr>], seq = 1\<rparr>"

text \<open>Two edits of the row of Ann, as the grid sends them: the rating is already a float.\<close>

definition edit_ann :: "real item" where
  "edit_ann = \<lparr>item_id = Some 1, item_name = Some ''Anne'', item_surname = Some ''Lee'',
     item_email = Some [], item_number = Some ''555-0000'', item_note = Some [],
     item_rating = Some 2, item_status = Some ''red''\<rparr>"

definition edit_ann2 :: "real item" where
  "edit_ann2 = \<lparr>item_id = Some 1, item_name = Some ''Bob'', item_surname = Some ''Ray'',
     item_email = Some ''bob@camp.org'', item_number = Some ''555-1234'',
     item_note = Some ''late arrival'', item_rating = Some 4, item_status = Some ''green''\<rparr>"

text \<open>New records of a batch, without id. The second has the number of Bob.\<close>

definition new_bob :: "real item" where
  "new_bob = \<lparr>item_id = None, item_name = Some ''Bob'', item_surname = Some ''Ray'',
     item_email = Some ''bob@camp.org'', item_number = Some ''555-9999'',
     item_note = Some ''late arrival'', item_rating = Some 4, item_status = Some ''green''\<rparr>"

definition zed :: user_data where
  "zed = \<lparr>u_name = ''Zed'', u_surname = ''Orr'', u_email = [], u_number = ''555-9999'',
     u_note = [], u_rating = 1, u_status = ''red''\<rparr>"

definition new_zed :: "real item" where
  "new_zed = \<lparr>item_id = None, item_name = Some ''Zed'', item_surname = Some ''Orr'',
     item_email = Some [], item_number = Some ''555-9999'', item_note = Some [],
     item_rating = Some 1, item_status = Some ''red''\<rparr>"

definition cy :: user_data where
  "cy = \<lparr>u_name = ''Cy'', u_surname = ''Day'', u_email = [], u_number = ''555-7777'',
     u_note = [], u_rating = 0, u_status = []\<rparr>"

text \<open>The record of Cy has no rating and no status key.\<close>

definition new_cy :: "real item" where
  "new_cy = \<lparr>item_id = None, item_name = Some ''Cy'', item_surname = Some ''Day'',
     item_email = Some [], item_number = Some ''555-7777'', item_note = Some [],
     item_rating = None, item_status = None\<rparr>"






text \<open>A lookup that knows the word \<open>because\<close> and offers it for \<open>becau\<close>.\<close>

definition sample_lookup :: "string \<Rightarrow> suggest_item list" where
  "sample_lookup word =
     (if word = ''because'' then [\<lparr>s_term = ''because'', s_distance = 0, s_count = 100\<rparr>]
      else if word = ''becau'' then [\<lparr>s_term = ''because'', s_distance = 2, s_count = 100\<rparr>]
      else [])"

definition sample_dict :: "(string \<times> nat) list" where
  "sample_dict = [(''cart'', 9), (''cat'', 5), (''dog'', 2), (''car'', 7)]"




section \<open>The LIKE operator and substrings\<close>

lemma like_percent: "like ''%'' s"
  by (induction s) auto

lemma like_percent_cons: "like q s \<Longrightarrow> like (CHR ''%'' # q) s"
  by (cases s) auto

lemma ci_prefix_like: "ci_prefix t s \<Longrightarrow> like (t @ ''%'') s"
proof (induction t s rule: ci_prefix.induct)
  case (1 s)
  then show ?case using like_percent by simp
next
  case (2 p ps)
  then show ?case by simp
next
  case (3 p ps c cs)
  then show ?case using like_percent_cons[of "ps @ ''%''" cs] by auto
qed

lemma ci_contains_like: "ci_contains t v \<Longrightarrow> like (CHR ''%'' # t @ ''%'') v"
proof (induction v)
  case Nil
  then show ?case by simp
next
  case (Cons c cs)
  then show ?case using ci_prefix_like[of t "c # cs"] by auto
qed

lemma like_ci_prefix: "no_wildcard t \<Longrightarrow> like (t @ ''%'') s = ci_prefix t s"
proof (induction t s rule: ci_prefix.induct)
  case (1 s)
  then show ?case using like_percent by simp
next
  case (2 p ps)
  then show ?case by (simp add: no_wildcard_def)
next
  case (3 p ps c cs)
  then show ?case by (simp add: no_wildcard_def)
qed

lemma like_ci_contains: "no_wildcard t \<Longrightarrow> like (CHR ''%'' # t @ ''%'') v = ci_contains t v"
proof (induction v)
  case Nil
  then show ?case using like_ci_prefix[of t "[]"] by (cases t) auto
next
  case (Cons c cs)
  then show ?case using like_ci_prefix[of t "c # cs"] by auto
qed

text \<open>\<open>ci_contains\<close> is the substring relation up to case.\<close>

lemma ci_prefix_iff: "ci_prefix t s \<longleftrightarrow> (\<exists>b c. s = b @ c \<and> py_lower b = py_lower t)"
proof (induction t s rule: ci_prefix.induct)
  case (1 s)
  then show ?case by (simp add: py_lower_def)
next
  case (2 p ps)
  then show ?case by (simp add: py_lower_def)
next
  case (3 p ps c cs)
  show ?case
  proof
    assume "ci_prefix (p # ps) (c # cs)"
    then obtain b c' where "cs = b @ c'" "py_lower b = py_lower ps" "lower_c p = lower_c c"
      using 3 by auto
    then have "c # cs = (c # b) @ c' \<and> py_lower (c # b) = py_lower (p # ps)"
      by (simp add: py_lower_def)
    then show "\<exists>b ca. c # cs = b @ ca \<and> py_lower b = py_lower (p # ps)" by blast
  next
    assume "\<exists>b ca. c # cs = b @ ca \<and> py_lower b = py_lower (p # ps)"
    then obtain b ca where h: "c # cs = b @ ca" "py_lower b = py_lower (p # ps)" by blast
    then obtain b' where "b = c # b'" by (cases b) (auto simp: py_lower_def)
    with h show "ci_prefix (p # ps) (c # cs)" using 3 by (auto simp: py_lower_def)
  qed
qed

lemma ci_contains_iff:
  "ci_contains t v \<longleftrightarrow> (\<exists>a b c. v = a @ b @ c \<and> py_lower b = py_lower t)"
proof (induction v)
  case Nil
  then show ?case by (auto simp: py_lower_def)
next
  case (Cons x xs)
  show ?case
  proof
    assume "ci_contains t (x # xs)"
    then consider "ci_prefix t (x # xs)" | "ci_contains t xs" by auto
    then show "\<exists>a b c. x # xs = a @ b @ c \<and> py_lower b = py_lower t"
    proof cases
      case 1
      then obtain b c where "x # xs = b @ c" "py_lower b = py_lower t"
        using ci_prefix_iff by blast
      then have "x # xs = [] @ b @ c \<and> py_lower b = py_lower t" by simp
      then show ?thesis by blast
    next
      case 2
      then obtain a b c where "xs = a @ b @ c" "py_lower b = py_lower t" using Cons by blast
      then have "x # xs = (x # a) @ b @ c \<and> py_lower b = py_lower t" by simp
      then show ?thesis by blast
    qed
  next
    assume "\<exists>a b c. x # xs = a @ b @ c \<and> py_lower b = py_lower t"
    then obtain a b c where h: "x # xs = a @ b @ c" "py_lower b = py_lower t" by blast
    show "ci_contains t (x # xs)"
    proof (cases a)
      case Nil
      with h have "ci_prefix t (x # xs)" using ci_prefix_iff by auto
      then show ?thesis by simp
    next
      case (Cons y ys)
      with h have "xs = ys @ b @ c" by simp
      with h Cons.IH have "ci_contains t xs" by blast
      then show ?thesis by simp
    qed
  qed
qed

section \<open>Keys and the loop of save_all_campers\<close>

lemma fold_max_ge: "(a::int) \<le> fold max xs a"
  by (induction xs arbitrary: a) (auto intro: order_trans[OF max.cobounded2])

lemma fold_max_mem: "x \<in> set xs \<Longrightarrow> (x::int) \<le> fold max xs a"
proof (induction xs arbitrary: a)
  case Nil
  then show ?case by simp
next
  case (Cons y ys)
  show ?case
  proof (cases "x = y")
    case True
    have "y \<le> max y a" by simp
    also have "\<dots> \<le> fold max ys (max y a)" by (rule fold_max_ge)
    finally show ?thesis using True by simp
  next
    case False
    with Cons show ?thesis by simp
  qed
qed

text \<open>A new key is larger than every key in the table.\<close>

lemma new_rowid_fresh: "r \<in> set (rows d) \<Longrightarrow> row_id r < new_rowid d"
proof -
  assume "r \<in> set (rows d)"
  then have "row_id r \<le> fold max (map row_id (rows d)) 0"
    by (intro fold_max_mem) simp
  then show ?thesis by (simp add: new_rowid_def)
qed

lemma new_rowid_not_stored: "new_rowid d \<notin> row_id ` set (rows d)"
  using new_rowid_fresh by fastforce


lemma add_camper_fresh:
  "u_number user \<notin> set (numbers d) \<Longrightarrow>
     add_camper user d =
       (None, \<lparr>rows = rows d @ [\<lparr>row_id = new_rowid d, row_data = user\<rparr>], seq = new_rowid d\<rparr>)"
  by (simp add: add_camper_def sql_insert_def commit_def)

section \<open>Insert and fetch\<close>



text \<open>
  The form path passes the failure on: \<open>handle_submit\<close> either rejects the record in
  validation or ends with the same error, and the database and the form are unchanged.
\<close>

lemma handle_submit_duplicate_number:
  "number_entry f \<in> set (numbers d) \<Longrightarrow>
     handle_submit f d = (None, d, f) \<or> handle_submit f d = (Some IntegrityError, d, f)"
  by (simp add: handle_submit_def Let_def add_camper_def sql_insert_def commit_def UserData_def)

text \<open>
  Claim C6. Round trip: a record whose number collides with no stored record is inserted
  without error, and a fetch whose filter matches the record (no filter, or a term that
  occurs in the chosen column of the record) returns a row that equals the record in all
  seven fields. Its id is new, and it is the only returned row with that number.
\<close>

theorem insert_fetch_roundtrip:
  assumes "u_number user \<notin> set (numbers d)" and "filter_matches search_term col user"
  shows "fst (add_camper user d) = None
    \<and> \<lparr>row_id = new_rowid d, row_data = user\<rparr>
          \<in> set (fetch_campers search_term col (snd (add_camper user d)))
    \<and> new_rowid d \<notin> row_id ` set (rows d)
    \<and> (\<forall>r \<in> set (fetch_campers search_term col (snd (add_camper user d))).
          u_number (row_data r) = u_number user \<longrightarrow> r = \<lparr>row_id = new_rowid d, row_data = user\<rparr>)"
proof -
  let ?r = "\<lparr>row_id = new_rowid d, row_data = user\<rparr>"
  have a: "add_camper user d = (None, \<lparr>rows = rows d @ [?r], seq = new_rowid d\<rparr>)"
    using assms(1) by (rule add_camper_fresh)
  have m: "\<And>t c. search_term = Some t \<Longrightarrow> col = Some c \<Longrightarrow>
      like (CHR ''%'' # t @ ''%'') (column_value c user)"
    using assms(2) by (auto simp: filter_matches_def intro: ci_contains_like)
  have sub: "set (fetch_campers search_term col (snd (add_camper user d))) \<subseteq> set (rows d) \<union> {?r}"
    by (auto simp: a fetch_campers_def split: option.splits if_splits)
  have "?r \<in> set (fetch_campers search_term col (snd (add_camper user d)))"
    using m by (auto simp: a fetch_campers_def split: option.splits)
  moreover have "\<forall>r \<in> set (fetch_campers search_term col (snd (add_camper user d))).
          u_number (row_data r) = u_number user \<longrightarrow> r = ?r"
  proof (intro ballI impI)
    fix r
    assume r: "r \<in> set (fetch_campers search_term col (snd (add_camper user d)))"
      and n: "u_number (row_data r) = u_number user"
    from r sub have "r \<in> set (rows d) \<or> r = ?r" by blast
    moreover have "r \<in> set (rows d) \<Longrightarrow> u_number (row_data r) \<in> set (numbers d)"
      by (simp add: numbers_def)
    ultimately show "r = ?r" using n assms(1) by auto
  qed
  ultimately show ?thesis using a new_rowid_not_stored by simp
qed

theorem insert_fetch_roundtrip_witness:
  "u_number bob \<notin> set (numbers db1) \<and> filter_matches (Some ''OB'') (Some ColName) bob
   \<and> fst (add_camper bob db1) = None
   \<and> \<lparr>row_id = 2, row_data = bob\<rparr>
        \<in> set (fetch_campers (Some ''OB'') (Some ColName) (snd (add_camper bob db1)))"
proof -
  have h1: "u_number bob \<notin> set (numbers db1)" by code_simp
  have h2: "filter_matches (Some ''OB'') (Some ColName) bob" by code_simp
  have n: "new_rowid db1 = 2" by code_simp
  show ?thesis using h1 h2 insert_fetch_roundtrip[OF h1 h2] by (simp add: n)
qed

text \<open>
  Claim C7, as amended. A fetch with no term or no column returns every stored record. A
  fetch with a term that has neither \<open>%\<close> nor \<open>_\<close> returns exactly the records whose value
  in the chosen column contains the term as a substring up to ASCII case. A record named
  Ann that has just been inserted is returned for the term \<open>an\<close> on the name column.
\<close>

theorem fetch_campers_filter:
  "fetch_campers None col d = rows d
   \<and> fetch_campers search_term None d = rows d
   \<and> (no_wildcard t \<longrightarrow>
        fetch_campers (Some t) (Some c) d =
          filter (\<lambda>r. ci_contains t (column_value c (row_data r))) (rows d))
   \<and> (u_name user = ''Ann'' \<and> u_number user \<notin> set (numbers d) \<longrightarrow>
        \<lparr>row_id = new_rowid d, row_data = user\<rparr>
          \<in> set (fetch_campers (Some ''an'') (Some ColName) (snd (add_camper user d))))"
proof -
  have 1: "fetch_campers None col d = rows d"
    by (simp add: fetch_campers_def)
  have 2: "fetch_campers search_term None d = rows d"
    by (simp add: fetch_campers_def split: option.splits)
  have 3: "fetch_campers (Some t) (Some c) d =
          filter (\<lambda>r. ci_contains t (column_value c (row_data r))) (rows d)" if "no_wildcard t"
  proof (cases "t = []")
    case True
    have "ci_contains [] v" for v by (cases v) auto
    then show ?thesis using True by (simp add: fetch_campers_def)
  next
    case False
    then show ?thesis using that by (simp add: fetch_campers_def like_ci_contains)
  qed
  have 4: "\<lparr>row_id = new_rowid d, row_data = user\<rparr>
          \<in> set (fetch_campers (Some ''an'') (Some ColName) (snd (add_camper user d)))"
    if "u_name user = ''Ann''" "u_number user \<notin> set (numbers d)"
  proof -
    have "ci_contains ''an'' ''Ann''" by code_simp
    then have "like ''%an%'' (u_name user)"
      using that(1) ci_contains_like[of "''an''" "''Ann''"] by simp
    then show ?thesis using that(2) by (simp add: add_camper_fresh fetch_campers_def)
  qed
  show ?thesis using 1 2 3 4 by blast
qed

theorem fetch_campers_filter_witness:
  "no_wildcard ''LE'' \<and> u_name ann = ''Ann'' \<and> u_number ann \<notin> set (numbers \<lparr>rows = [], seq = 0\<rparr>)
   \<and> fetch_campers (Some ''LE'') (Some ColSurname) db1 = [\<lparr>row_id = 1, row_data = ann\<rparr>]
   \<and> fetch_campers (Some ''LE'') (Some ColName) db1 = []
   \<and> \<lparr>row_id = 1, row_data = ann\<rparr>
        \<in> set (fetch_campers (Some ''an'') (Some ColName) (snd (add_camper ann \<lparr>rows = [], seq = 0\<rparr>)))"
proof -
  have h1: "no_wildcard ''LE''" by code_simp
  have h2: "u_name ann = ''Ann''" by code_simp
  have h3: "u_number ann \<notin> set (numbers \<lparr>rows = [], seq = 0\<rparr>)" by code_simp
  have n: "new_rowid \<lparr>rows = [], seq = 0\<rparr> = 1" by code_simp
  have f1: "filter (\<lambda>r. ci_contains ''LE'' (column_value ColSurname (row_data r))) (rows db1)
      = [\<lparr>row_id = 1, row_data = ann\<rparr>]" by code_simp
  have f2: "filter (\<lambda>r. ci_contains ''LE'' (column_value ColName (row_data r))) (rows db1) = []"
    by code_simp
  show ?thesis
    using h1 h2 h3 n f1 f2
      fetch_campers_filter[of None db1 None "''LE''" ColSurname ann]
      fetch_campers_filter[of None db1 None "''LE''" ColName ann]
      fetch_campers_filter[of None "\<lparr>rows = [], seq = 0\<rparr>" None "''LE''" ColName ann]
    by simp
qed

text \<open>
  The claim as it was stated fails for a term with a wildcard: the term \<open>_\<close> selects the
  record named Ann, whose name does not contain an underscore.
\<close>

theorem fetch_campers_wildcard_counterexample:
  "fetch_campers (Some ''_'') (Some ColName) db1 = [\<lparr>row_id = 1, row_data = ann\<rparr>]
   \<and> \<not> ci_contains ''_'' (u_name ann)"
  by code_simp

section \<open>Update-only batches\<close>

text \<open>
  An update-only batch that runs to its commit leaves in every row the values of the last
  item that carries the key of the row.
\<close>

lemma row_after_Nil: "row_after pf [] r = r"
  by (simp add: row_after_def)

lemma row_id_row_after: "row_id (row_after pf items r) = row_id r"
  by (simp add: row_after_def split: option.splits)

lemma row_after_Cons: "row_after pf (it # items) r = row_after pf items (row_after pf [it] r)"
  by (simp add: row_after_def split: option.splits sum.splits)

lemma row_after_idem: "row_after pf items (row_after pf items r) = row_after pf items r"
  by (simp add: row_after_def split: option.splits)

lemma save_item_update:
  assumes "truthy_id (item_id it)" and "save_item pf it d = Inr d'"
  shows "rows d' = map (row_after pf [it]) (rows d) \<and> seq d' = seq d"
proof -
  from assms(1) obtain i where i: "item_id it = Some i"
    by (auto simp: truthy_id_def split: option.splits)
  from assms obtain v where v: "item_values pf it = Inr v" and u: "sql_update i v d = Inr d'"
    by (auto simp: save_item_def i split: sum.splits)
  from u have "rows d' = map (\<lambda>r. if row_id r = i then \<lparr>row_id = i, row_data = v\<rparr> else r) (rows d)"
    and s: "seq d' = seq d"
    by (auto simp: sql_update_def split: if_splits)
  moreover have "(\<lambda>r. if row_id r = i then \<lparr>row_id = i, row_data = v\<rparr> else r) = row_after pf [it]"
    by (rule ext) (simp add: row_after_def v i)
  ultimately show ?thesis by simp
qed

lemma save_loop_updates:
  "\<forall>it \<in> set items. truthy_id (item_id it) \<Longrightarrow> save_loop pf items d = Inr d' \<Longrightarrow>
     rows d' = map (row_after pf items) (rows d) \<and> seq d' = seq d"
proof (induction items arbitrary: d)
  case Nil
  then show ?case by (simp add: row_after_Nil)
next
  case (Cons it items)
  from Cons.prems obtain d1 where d1: "save_item pf it d = Inr d1" and l: "save_loop pf items d1 = Inr d'"
    by (auto split: sum.splits)
  from Cons.prems(1) d1 have 1: "rows d1 = map (row_after pf [it]) (rows d) \<and> seq d1 = seq d"
    by (intro save_item_update) auto
  from Cons.IH[OF _ l] Cons.prems(1)
  have 2: "rows d' = map (row_after pf items) (rows d1) \<and> seq d' = seq d1" by simp
  have "map (row_after pf items) (map (row_after pf [it]) (rows d)) = map (row_after pf (it # items)) (rows d)"
    by (simp add: row_after_Cons[of pf it items])
  with 1 2 show ?case by simp
qed

text \<open>
  Claim C5. For a batch in which every item carries the id of a stored record, saving the
  batch twice leaves the same stored state as saving it once. This covers the batch that
  raises (a number that collides, a rating that is no number): nothing of it is committed.
\<close>

theorem save_all_campers_updates_idempotent:
  assumes "\<forall>r \<in> set (rows d). row_id r \<noteq> 0"
    and "\<forall>it \<in> set items. \<exists>i. item_id it = Some i \<and> i \<in> row_id ` set (rows d)"
  shows "snd (save_all_campers pf items (snd (save_all_campers pf items d)))
           = snd (save_all_campers pf items d)"
proof -
  have t: "\<forall>it \<in> set items. truthy_id (item_id it)"
    using assms by (fastforce simp: truthy_id_def)
  show ?thesis
  proof (cases "save_loop pf items d")
    case (Inl e)
    then show ?thesis by (simp add: save_all_campers_def commit_def)
  next
    case (Inr d1)
    then have 1: "snd (save_all_campers pf items d) = d1"
      by (simp add: save_all_campers_def commit_def)
    from save_loop_updates[OF t Inr]
    have r1: "rows d1 = map (row_after pf items) (rows d)" by simp
    show ?thesis
    proof (cases "save_loop pf items d1")
      case (Inl e)
      then show ?thesis using 1 by (simp add: save_all_campers_def commit_def)
    next
      case (Inr d2)
      from save_loop_updates[OF t Inr]
      have "rows d2 = map (row_after pf items) (rows d1)" and "seq d2 = seq d1" by simp_all
      then have "rows d2 = rows d1" and "seq d2 = seq d1"
        using r1 by (simp_all add: row_after_idem)
      then have "d2 = d1" by simp
      then show ?thesis using 1 Inr by (simp add: save_all_campers_def commit_def)
    qed
  qed
qed

theorem save_all_campers_updates_idempotent_witness:
  "snd (save_all_campers Some [edit_ann, edit_ann2] db1)
       = \<lparr>rows = [\<lparr>row_id = 1, row_data = bob\<lparr>u_number := ''555-1234''\<rparr>\<rparr>], seq = 1\<rparr>
   \<and> snd (save_all_campers Some [edit_ann, edit_ann2]
            (snd (save_all_campers Some [edit_ann, edit_ann2] db1)))
       = snd (save_all_campers Some [edit_ann, edit_ann2] db1)"
proof -
  have h1: "\<forall>r \<in> set (rows db1). row_id r \<noteq> 0" by code_simp
  have h2: "\<forall>it \<in> set [edit_ann, edit_ann2]. \<exists>i. item_id it = Some i \<and> i \<in> row_id ` set (rows db1)"
    by (simp add: edit_ann_def edit_ann2_def db1_def)
  have e: "snd (save_all_campers Some [edit_ann, edit_ann2] db1)
       = \<lparr>rows = [\<lparr>row_id = 1, row_data = bob\<lparr>u_number := ''555-1234''\<rparr>\<rparr>], seq = 1\<rparr>"
    by code_simp
  show ?thesis
    using e save_all_campers_updates_idempotent[OF h1 h2, of Some] by simp
qed

section \<open>Insert-only batches\<close>

lemma fresh_inserts_cong: "set a = set b \<Longrightarrow> fresh_inserts a vs = fresh_inserts b vs"
proof (induction vs arbitrary: a b)
  case Nil
  then show ?case by simp
next
  case (Cons v vs)
  have "fresh_inserts (u_number v # a) vs = fresh_inserts (u_number v # b) vs"
    using Cons.prems by (intro Cons.IH) simp
  moreover have "fresh_inserts a vs = fresh_inserts b vs"
    using Cons.prems by (rule Cons.IH)
  ultimately show ?case using Cons.prems by simp
qed

lemma fresh_inserts_distinct:
  "distinct (map u_number vs) \<Longrightarrow> set (map u_number vs) \<inter> set seen = {} \<Longrightarrow>
     fresh_inserts seen vs = vs"
proof (induction vs arbitrary: seen)
  case Nil
  then show ?case by simp
next
  case (Cons v vs)
  have "fresh_inserts (u_number v # seen) vs = vs"
    using Cons.prems by (intro Cons.IH) auto
  then show ?case using Cons.prems by auto
qed

lemma fresh_inserts_append:
  "fresh_inserts seen (a @ b) =
     fresh_inserts seen a @ fresh_inserts (map u_number (fresh_inserts seen a) @ seen) b"
proof (induction a arbitrary: seen)
  case Nil
  then show ?case by simp
next
  case (Cons v a)
  show ?case
  proof (cases "u_number v \<in> set seen")
    case True
    then show ?thesis using Cons.IH[of seen] by simp
  next
    case False
    have "fresh_inserts (map u_number (fresh_inserts (u_number v # seen) a) @ u_number v # seen) b
        = fresh_inserts (u_number v # map u_number (fresh_inserts (u_number v # seen) a) @ seen) b"
      by (rule fresh_inserts_cong) auto
    then show ?thesis using False Cons.IH[of "u_number v # seen"] by simp
  qed
qed

text \<open>A skipped record among records with distinct new numbers: only the others remain.\<close>

lemma fresh_inserts_one_duplicate:
  assumes "distinct (map u_number (vpre @ vpost))"
    and "set (map u_number (vpre @ vpost)) \<inter> set seen = {}"
    and "u_number vdup \<in> set seen \<union> set (map u_number vpre)"
  shows "fresh_inserts seen (vpre @ [vdup] @ vpost) = vpre @ vpost"
proof -
  have 1: "fresh_inserts seen vpre = vpre"
    using assms(1,2) by (intro fresh_inserts_distinct) auto
  have 2: "fresh_inserts (map u_number vpre @ seen) vpost = vpost"
    using assms(1,2) by (intro fresh_inserts_distinct) auto
  have "fresh_inserts seen (vpre @ [vdup] @ vpost)
      = vpre @ fresh_inserts (map u_number vpre @ seen) ([vdup] @ vpost)"
    by (simp add: fresh_inserts_append[of seen vpre] 1)
  also have "fresh_inserts (map u_number vpre @ seen) ([vdup] @ vpost) = vpost"
    using assms(3) 2 by auto
  finally show ?thesis .
qed

lemma numbers_insert_or_ignore:
  "set (numbers (sql_insert_or_ignore v d)) = set (u_number v # numbers d)"
  by (auto simp: sql_insert_or_ignore_def numbers_def)

lemma new_rowid_insert_or_ignore: "new_rowid d < new_rowid (sql_insert_or_ignore v d)"
proof -
  have "seq (sql_insert_or_ignore v d) = new_rowid d"
    by (simp add: sql_insert_or_ignore_def)
  then show ?thesis
    unfolding new_rowid_def[of "sql_insert_or_ignore v d"] by simp
qed

text \<open>
  The loop on a batch of inserts whose ratings convert: it does not raise, the stored rows
  stay in place, and the rows it adds are the records that \<open>fresh_inserts\<close> keeps, under
  new and distinct keys.
\<close>

lemma save_loop_inserts:
  assumes "\<forall>it \<in> set items. \<not> truthy_id (item_id it)"
    and "map (item_values pf) items = map Inr vs"
  shows "\<exists>d' new. save_loop pf items d = Inr d' \<and> rows d' = rows d @ new
      \<and> map row_data new = fresh_inserts (numbers d) vs
      \<and> (\<forall>r \<in> set new. new_rowid d \<le> row_id r) \<and> distinct (map row_id new)"
  using assms
proof (induction items arbitrary: d vs)
  case Nil
  then show ?case by simp
next
  case (Cons it items)
  from Cons.prems(2) obtain v vs' where vs: "vs = v # vs'" and v: "item_values pf it = Inr v"
    and rest: "map (item_values pf) items = map Inr vs'"
    by (cases vs) auto
  let ?d1 = "sql_insert_or_ignore v d"
  have step: "save_item pf it d = Inr ?d1"
    using Cons.prems(1) v by (simp add: save_item_def)
  from Cons.IH[OF _ rest, of ?d1] Cons.prems(1)
  obtain d' new where l: "save_loop pf items ?d1 = Inr d'" and r: "rows d' = rows ?d1 @ new"
    and m: "map row_data new = fresh_inserts (numbers ?d1) vs'"
    and k: "\<forall>r \<in> set new. new_rowid ?d1 \<le> row_id r" and dn: "distinct (map row_id new)"
    by auto
  have lt: "new_rowid d < new_rowid ?d1" by (rule new_rowid_insert_or_ignore)
  show ?case
  proof (cases "u_number v \<in> set (numbers d)")
    case True
    then have "rows ?d1 = rows d" by (simp add: sql_insert_or_ignore_def)
    moreover have "fresh_inserts (numbers ?d1) vs' = fresh_inserts (numbers d) vs'"
      using True by (intro fresh_inserts_cong) (auto simp: numbers_insert_or_ignore)
    ultimately have "save_loop pf (it # items) d = Inr d' \<and> rows d' = rows d @ new
      \<and> map row_data new = fresh_inserts (numbers d) vs
      \<and> (\<forall>r \<in> set new. new_rowid d \<le> row_id r) \<and> distinct (map row_id new)"
      using step l r m k dn lt True vs by fastforce
    then show ?thesis by blast
  next
    case False
    let ?r1 = "\<lparr>row_id = new_rowid d, row_data = v\<rparr>"
    from False have r1: "rows ?d1 = rows d @ [?r1]" by (simp add: sql_insert_or_ignore_def)
    have "fresh_inserts (numbers ?d1) vs' = fresh_inserts (u_number v # numbers d) vs'"
      by (intro fresh_inserts_cong) (simp add: numbers_insert_or_ignore)
    then have "save_loop pf (it # items) d = Inr d' \<and> rows d' = rows d @ (?r1 # new)
      \<and> map row_data (?r1 # new) = fresh_inserts (numbers d) vs
      \<and> (\<forall>r \<in> set (?r1 # new). new_rowid d \<le> row_id r) \<and> distinct (map row_id (?r1 # new))"
      using step l r m k dn lt False vs r1 by fastforce
    then show ?thesis by blast
  qed
qed

text \<open>
  Claim C4, as amended. A batch of records without id, all with ratings that \<open>float\<close>
  accepts: N records with pairwise distinct numbers that are not stored, and one more
  record whose number is stored already or is the number of a record earlier in the
  batch. The call raises nothing and commits; the stored rows stay as they were, the rows
  added are exactly the N records, in order and under new distinct keys, and the table is,
  up to keys, what the batch without the duplicate leaves.
\<close>

theorem save_all_campers_skips_duplicate:
  assumes "\<forall>it \<in> set (pre @ [dup] @ post). \<not> truthy_id (item_id it)"
    and "map (item_values pf) pre = map Inr vpre"
    and "item_values pf dup = Inr vdup"
    and "map (item_values pf) post = map Inr vpost"
    and "distinct (map u_number (vpre @ vpost))"
    and "set (map u_number (vpre @ vpost)) \<inter> set (numbers d) = {}"
    and "u_number vdup \<in> set (numbers d) \<union> set (map u_number vpre)"
  shows "fst (save_all_campers pf (pre @ [dup] @ post) d) = None
    \<and> (\<exists>new. rows (snd (save_all_campers pf (pre @ [dup] @ post) d)) = rows d @ new
          \<and> map row_data new = vpre @ vpost
          \<and> distinct (map row_id new)
          \<and> (\<forall>r \<in> set new. row_id r \<notin> row_id ` set (rows d)))
    \<and> map row_data (rows (snd (save_all_campers pf (pre @ [dup] @ post) d)))
        = map row_data (rows (snd (save_all_campers pf (pre @ post) d)))"
proof -
  have vals: "map (item_values pf) (pre @ [dup] @ post) = map Inr (vpre @ [vdup] @ vpost)"
    using assms(2,3,4) by simp
  from save_loop_inserts[OF assms(1) vals, of d]
  obtain d' new where l: "save_loop pf (pre @ [dup] @ post) d = Inr d'"
    and r: "rows d' = rows d @ new"
    and m: "map row_data new = fresh_inserts (numbers d) (vpre @ [vdup] @ vpost)"
    and k: "\<forall>r \<in> set new. new_rowid d \<le> row_id r" and dn: "distinct (map row_id new)"
    by blast
  have f: "fresh_inserts (numbers d) (vpre @ [vdup] @ vpost) = vpre @ vpost"
    using assms(5,6,7) by (rule fresh_inserts_one_duplicate)
  have fr: "\<forall>r \<in> set new. row_id r \<notin> row_id ` set (rows d)"
    using k new_rowid_fresh[of _ d] by fastforce
  have vals2: "map (item_values pf) (pre @ post) = map Inr (vpre @ vpost)"
    using assms(2,4) by simp
  have ids2: "\<forall>it \<in> set (pre @ post). \<not> truthy_id (item_id it)"
    using assms(1) by auto
  from save_loop_inserts[OF ids2 vals2, of d]
  obtain d2 new2 where l2: "save_loop pf (pre @ post) d = Inr d2"
    and r2: "rows d2 = rows d @ new2"
    and m2: "map row_data new2 = fresh_inserts (numbers d) (vpre @ vpost)"
    by blast
  have f2: "fresh_inserts (numbers d) (vpre @ vpost) = vpre @ vpost"
    using assms(5,6) by (intro fresh_inserts_distinct) auto
  have s1: "save_all_campers pf (pre @ [dup] @ post) d = (None, d')"
    using l by (simp add: save_all_campers_def commit_def)
  have s2: "save_all_campers pf (pre @ post) d = (None, d2)"
    using l2 by (simp add: save_all_campers_def commit_def)
  have "\<exists>new. rows d' = rows d @ new \<and> map row_data new = vpre @ vpost
          \<and> distinct (map row_id new) \<and> (\<forall>r \<in> set new. row_id r \<notin> row_id ` set (rows d))"
    using r m f dn fr by auto
  moreover have "map row_data (rows d') = map row_data (rows d2)"
    using r r2 m m2 f f2 by simp
  ultimately show ?thesis using s1 s2 by simp
qed

theorem save_all_campers_skips_duplicate_witness:
  "fst (save_all_campers Some [new_bob, new_zed, new_cy] db1) = None
   \<and> map row_data (rows (snd (save_all_campers Some [new_bob, new_zed, new_cy] db1)))
       = [ann, bob, cy]
   \<and> map row_data (rows (snd (save_all_campers Some [new_bob, new_cy] db1))) = [ann, bob, cy]"
proof -
  have h1: "\<forall>it \<in> set ([new_bob] @ [new_zed] @ [new_cy]). \<not> truthy_id (item_id it)"
    by (simp add: new_bob_def new_zed_def new_cy_def truthy_id_def)
  have h2: "map (item_values Some) [new_bob] = map Inr [bob]" by code_simp
  have h3: "item_values Some new_zed = Inr zed" by code_simp
  have h4: "map (item_values Some) [new_cy] = map Inr [cy]" by code_simp
  have h5: "distinct (map u_number ([bob] @ [cy]))" by code_simp
  have h6: "set (map u_number ([bob] @ [cy])) \<inter> set (numbers db1) = {}" by code_simp
  have h7: "u_number zed \<in> set (numbers db1) \<union> set (map u_number [bob])" by code_simp
  have e: "map row_data (rows (snd (save_all_campers Some [new_bob, new_cy] db1))) = [ann, bob, cy]"
    by code_simp
  show ?thesis
    using save_all_campers_skips_duplicate[OF h1 h2 h3 h4 h5 h6 h7] e by simp
qed

text \<open>
  The claim as it was stated fails when the record that shares a number with a sibling
  comes first: of Zed and Bob, who have one number, the batch keeps Zed, although Bob alone
  is a valid insert and Zed duplicates a sibling.
\<close>

theorem save_all_campers_first_wins_counterexample:
  "map row_data (rows (snd (save_all_campers Some [new_zed, new_bob] db1))) = [ann, zed]
   \<and> item_values Some new_bob = Inr bob \<and> item_values Some new_zed = Inr zed
   \<and> u_number zed = u_number bob \<and> u_number bob \<notin> set (numbers db1) \<and> zed \<noteq> bob"
  by code_simp

section \<open>No validation in save_all_campers\<close>




section \<open>Backup\<close>



section \<open>Matching the capitalization\<close>

lemma upper_not_lower: "is_upper_c c \<Longrightarrow> \<not> is_lower_c c"
  by (simp add: is_upper_c_def is_lower_c_def)

text \<open>Without an upper-case character the title loop fails at the first cased character.\<close>

lemma istitle_loop_no_upper:
  "\<not> list_ex is_upper_c s \<Longrightarrow>
     istitle_loop False cased s = (cased \<and> \<not> list_ex is_lower_c s)"
  by (induction s arbitrary: cased) auto

lemma islower_not_isupper: "py_islower s \<Longrightarrow> \<not> py_isupper s"
  by (simp add: py_islower_def py_isupper_def)

lemma islower_not_istitle: "py_islower s \<Longrightarrow> \<not> py_istitle s"
  by (simp add: py_islower_def py_istitle_def istitle_loop_no_upper)

text \<open>
  Claim C3, as amended. For every original token and every suggestion, the function returns
  the suggestion upper-cased when the original is all upper case; capitalized when the
  original is title case and not all upper case; lower-cased when the original is all
  lower case; and unchanged when the original is none of the three.
\<close>

theorem match_capitalization_cases:
  "(py_isupper original \<longrightarrow> match_capitalization original suggestion = py_upper suggestion)
   \<and> (py_istitle original \<and> \<not> py_isupper original \<longrightarrow>
        match_capitalization original suggestion = py_capitalize suggestion)
   \<and> (py_islower original \<longrightarrow> match_capitalization original suggestion = py_lower suggestion)
   \<and> (\<not> py_isupper original \<and> \<not> py_istitle original \<and> \<not> py_islower original \<longrightarrow>
        match_capitalization original suggestion = suggestion)"
  using islower_not_isupper[of original] islower_not_istitle[of original]
  by (auto simp: match_capitalization_def)

theorem match_capitalization_cases_witness:
  "py_isupper ''WROLD'' \<and> match_capitalization ''WROLD'' ''world'' = ''WORLD''
   \<and> py_istitle ''Wrold'' \<and> \<not> py_isupper ''Wrold''
   \<and> match_capitalization ''Wrold'' ''world'' = ''World''
   \<and> py_islower ''wrold'' \<and> match_capitalization ''wrold'' ''World'' = ''world''
   \<and> \<not> py_isupper ''wrOld'' \<and> \<not> py_istitle ''wrOld'' \<and> \<not> py_islower ''wrOld''
   \<and> match_capitalization ''wrOld'' ''World'' = ''World''"
proof -
  have h1: "py_isupper ''WROLD''" by code_simp
  have h2: "py_istitle ''Wrold'' \<and> \<not> py_isupper ''Wrold''" by code_simp
  have h3: "py_islower ''wrold''" by code_simp
  have h4: "\<not> py_isupper ''wrOld'' \<and> \<not> py_istitle ''wrOld'' \<and> \<not> py_islower ''wrOld''"
    by code_simp
  have e1: "py_upper ''world'' = ''WORLD''" by code_simp
  have e2: "py_capitalize ''world'' = ''World''" by code_simp
  have e3: "py_lower ''World'' = ''world''" by code_simp
  from match_capitalization_cases[of "''WROLD''" "''world''"] h1 e1
  have w1: "match_capitalization ''WROLD'' ''world'' = ''WORLD''" by simp
  from match_capitalization_cases[of "''Wrold''" "''world''"] h2 e2
  have w2: "match_capitalization ''Wrold'' ''world'' = ''World''" by simp
  from match_capitalization_cases[of "''wrold''" "''World''"] h3 e3
  have w3: "match_capitalization ''wrold'' ''World'' = ''world''" by simp
  from match_capitalization_cases[of "''wrOld''" "''World''"] h4
  have w4: "match_capitalization ''wrOld'' ''World'' = ''World''" by simp
  show ?thesis using h1 h2 h3 h4 w1 w2 w3 w4 by simp
qed

text \<open>
  The claim as it was stated fails for an original that is both all upper case and title
  case, such as a single capital letter: the suggestion comes back upper-cased, not
  capitalized.
\<close>

theorem match_capitalization_title_counterexample:
  "py_istitle ''A'' \<and> match_capitalization ''A'' ''an'' = ''AN'' \<and> py_capitalize ''an'' = ''An''"
  by code_simp

section \<open>The lookup of a dictionary word\<close>

lemma edit_distance_zero: "edit_distance a b = 0 \<longleftrightarrow> a = b"
  by (induction a b rule: edit_distance.induct) auto

text \<open>The head of a list sorted by a key has the least key.\<close>

lemma sort_key_hd_least:
  assumes "x \<in> set xs"
  shows "\<exists>y ys. sort_key f xs = y # ys \<and> y \<in> set xs \<and> f y \<le> f x"
proof -
  have s: "set (sort_key f xs) = set xs" by simp
  then obtain y ys where e: "sort_key f xs = y # ys"
    using assms by (cases "sort_key f xs") auto
  have "sorted (map f (sort_key f xs))" by (rule sorted_sort_key)
  then have "\<forall>z \<in> set ys. f y \<le> f z" using e by simp
  moreover have "x = y \<or> x \<in> set ys" using assms s e by auto
  moreover have "y \<in> set xs" using s e by auto
  ultimately show ?thesis using e by auto
qed

lemma candidates_distance:
  "s \<in> set (candidates dict word) \<Longrightarrow> s_distance s = edit_distance word (s_term s)"
  by (auto simp: candidates_def)

text \<open>
  Claim C2. For every word of the dictionary (a lower-case word, as the data model has
  it), the lookup with maximum distance 2 returns a non-empty list whose first candidate is
  the word itself at edit distance zero; the tooltip for the word then shows the word.
\<close>

theorem Lookup_dictionary_word:
  assumes "(w, c) \<in> set dict" and "py_lower w = w"
  shows "\<exists>s rest. Lookup dict w 2 = s # rest \<and> s_term s = w \<and> s_distance s = 0
           \<and> display_word_suggestion (\<lambda>x. Lookup dict x 2) w = w"
proof -
  let ?x = "\<lparr>s_term = w, s_distance = edit_distance w w, s_count = c\<rparr>"
  let ?cs = "filter (\<lambda>s. s_distance s \<le> 2) (candidates dict w)"
  let ?key = "\<lambda>s. (s_distance s, - int (s_count s))"
  have d0: "edit_distance w w = 0" by (simp add: edit_distance_zero)
  have "?x \<in> set (candidates dict w)"
    using assms(1) by (force simp: candidates_def)
  then have "?x \<in> set ?cs" using d0 by simp
  from sort_key_hd_least[OF this, of ?key]
  obtain s rest where e: "sort_key ?key ?cs = s # rest" and m: "s \<in> set ?cs"
    and le: "?key s \<le> ?key ?x"
    by blast
  from le d0 have z: "s_distance s = 0" by (auto simp: less_eq_prod_def)
  from m have "s_distance s = edit_distance w (s_term s)"
    by (auto dest: candidates_distance)
  with z have t: "s_term s = w" by (simp add: edit_distance_zero)
  have l: "Lookup dict w 2 = s # rest"
    using e assms(2) by (simp add: Lookup_def)
  then show ?thesis using t z by (auto simp: display_word_suggestion_def)
qed

theorem Lookup_dictionary_word_witness:
  "(''cat'', 5) \<in> set sample_dict \<and> py_lower ''cat'' = ''cat''
   \<and> hd (Lookup sample_dict ''cat'' 2) = \<lparr>s_term = ''cat'', s_distance = 0, s_count = 5\<rparr>
   \<and> (\<exists>s rest. Lookup sample_dict ''cat'' 2 = s # rest \<and> s_term s = ''cat'' \<and> s_distance s = 0)"
proof -
  have h1: "(''cat'', 5) \<in> set sample_dict" by code_simp
  have h2: "py_lower ''cat'' = ''cat''" by code_simp
  have e: "hd (Lookup sample_dict ''cat'' 2) = \<lparr>s_term = ''cat'', s_distance = 0, s_count = 5\<rparr>"
    by code_simp
  from Lookup_dictionary_word[OF h1 h2]
  have "\<exists>s rest. Lookup sample_dict ''cat'' 2 = s # rest \<and> s_term s = ''cat'' \<and> s_distance s = 0"
    by blast
  then show ?thesis using h1 h2 e by simp
qed

section \<open>The spell check\<close>

text \<open>
  Claim C1 fails on the code. In the text \<open>because becau\<close> the first token is known and
  the second is not, so the second token alone, at offsets 8 to 13, should carry the tag.
  \<open>check_spelling\<close> decides rightly which word to flag, but it places the tag by searching
  the text for the word from the end of the previous tag: it finds \<open>becau\<close> inside the
  known token and tags the offsets 0 to 5. The misspelled token is left without a tag and a
  part of the correct token carries one.
\<close>

theorem check_spelling_tags_wrong_span:
  "token_spans ''because becau'' = [(''because'', 0, 7), (''becau'', 8, 13)]
   \<and> py_split ''because becau'' = [''because'', ''becau'']
   \<and> \<not> is_misspelled sample_lookup ''because''
   \<and> is_misspelled sample_lookup ''becau''
   \<and> check_spelling sample_lookup (Some \<lparr>w_text = ''because becau'', w_tags = []\<rparr>)
       = Some \<lparr>w_text = ''because becau'', w_tags = [(0, 5)]\<rparr>"
  by code_simp

text \<open>The tokens of \<open>token_spans\<close> are the words that \<open>check_spelling\<close> walks through.\<close>

lemma spans_loop_words: "map fst (spans_loop i cur s) = split_loop cur s"
  by (induction s arbitrary: i cur) auto

lemma token_spans_words: "map fst (token_spans txt) = py_split txt"
  by (simp add: token_spans_def py_split_def spans_loop_words)

end
